theory Spec2Isabelle
  imports Complex_Main "HOL-Library.Multiset" "HOL-Library.Log_Nat"
begin

section \<open>License usage report: the data model\<close>

text \<open>
  The program reads two JSON collections from the directory service and works on them as
  Python dictionaries. Each dictionary is modelled as a record with one field per key the
  program reads; a field is an \<open>option\<close>, with \<open>None\<close> for a key that is
  absent, so that a subscript \<^verbatim>\<open>d['k']\<close> on an absent key is the \<open>KeyError\<close>
  Python raises and \<^verbatim>\<open>d.get('k', default)\<close> is its default. A key that is present
  holds a value of the type the service documents: identifiers, codes and names are
  strings, unit counts are (unbounded) integers.

  A Python float is an IEEE 754 double. The model holds a finite float as the rational
  number it denotes, and every float operation rounds its exact result to the nearest
  double, ties to even, as the hardware does. Two outcomes lie beyond the finite doubles.
  The true division of two integers raises \<open>OverflowError\<close> when its rounded quotient
  does. The product of two floats raises nothing: it is \<^verbatim>\<open>inf\<close>, a value that the
  rows of this model, which hold rationals, cannot hold; the model ends such a run with
  \<open>FloatInfinity\<close>, which is no exception of the program but the mark of a run that
  the model does not follow further. It takes a unit count beyond \<open>10 ^ 305\<close>.
\<close>

datatype py_error = KeyError string | ZeroDivisionError | OverflowError | FloatInfinity

record license =
  skuId :: "string option"

record prepaid_units =
  enabled :: "int option"

record sku =
  skuId :: "string option"
  skuPartNumber :: "string option"
  prepaidUnits :: "prepaid_units option"
  consumedUnits :: "int option"

record user =
  displayName :: "string option"
  userPrincipalName :: "string option"
  assignedLicenses :: "license list option"

text \<open>One entry of \<^verbatim>\<open>license_data\<close>, the dictionary built by \<^verbatim>\<open>analyze_licenses\<close>.\<close>

record license_row =
  license_name :: string
  sku_code :: string
  total_licenses :: int
  assigned :: int
  available :: int
  utilization_pct :: rat
  users :: "string list"

section \<open>Python primitives\<close>

text \<open>\<^verbatim>\<open>d[k]\<close>: the value under the key, or \<open>KeyError\<close>.\<close>

definition getitem :: "string \<Rightarrow> 'a option \<Rightarrow> py_error + 'a" where
  "getitem k v = (case v of None \<Rightarrow> Inl (KeyError k) | Some x \<Rightarrow> Inr x)"

text \<open>
  Sequencing of two computations that may raise: an exception raised by the first is
  the result, otherwise the second runs on the first one's value.
\<close>

definition py_bind :: "py_error + 'a \<Rightarrow> ('a \<Rightarrow> py_error + 'b) \<Rightarrow> py_error + 'b" where
  "py_bind m f = (case m of Inl e \<Rightarrow> Inl e | Inr x \<Rightarrow> f x)"

text \<open>\<^verbatim>\<open>d.get(k, default)\<close>.\<close>

definition get_default :: "'a option \<Rightarrow> 'a \<Rightarrow> 'a" where
  "get_default v d = (case v of None \<Rightarrow> d | Some x \<Rightarrow> x)"

subsection \<open>Floats\<close>

text \<open>Rounding to the nearest integer, a tie going to the even one.\<close>

definition round_half_even :: "rat \<Rightarrow> int" where
  "round_half_even x =
     (let f = \<lfloor>x\<rfloor>; d = x - of_int f
      in if d < 1 / 2 then f else if 1 / 2 < d then f + 1 else if even f then f else f + 1)"

text \<open>
  The binary exponent of a positive rational \<open>x\<close>: the \<open>e\<close> with
  \<open>2 ^ e \<le> x < 2 ^ (e + 1)\<close>. The bit lengths of numerator and denominator give it
  up to one, and a comparison settles it.
\<close>

definition ilog2 :: "rat \<Rightarrow> int" where
  "ilog2 x =
     (let (p, q) = quotient_of x; le = bitlen p - bitlen q
      in if 2 powi le \<le> x then le else le - 1)"

text \<open>
  The double nearest to \<open>x\<close>, ties to even: \<open>x\<close> is rounded to a multiple of the
  spacing of the doubles around it, which is \<open>2 ^ (e - 52)\<close> for a significand of 53
  bits and never less than \<open>2 ^ - 1074\<close>, the least subnormal. The exponent has no
  upper limit here: the operations below test the result against \<open>2 ^ 1024\<close>.
\<close>

definition round_double :: "rat \<Rightarrow> rat" where
  "round_double x =
     (if x = 0 then 0
      else let q = 2 powi (max (ilog2 \<bar>x\<bar> - 52) (- 1074))
           in of_int (round_half_even (x / q)) * q)"

text \<open>
  \<^verbatim>\<open>a / b\<close> on integers: the correctly rounded quotient, \<open>ZeroDivisionError\<close> for
  a zero divisor, \<open>OverflowError\<close> for a quotient too large for a float.
\<close>

definition py_truediv :: "int \<Rightarrow> int \<Rightarrow> py_error + rat" where
  "py_truediv a b =
     (if b = 0 then Inl ZeroDivisionError
      else let q = round_double (of_int a / of_int b)
           in if 2 ^ 1024 \<le> \<bar>q\<bar> then Inl OverflowError else Inr q)"

text \<open>
  \<^verbatim>\<open>x * y\<close> on floats (an integer operand, as the \<^verbatim>\<open>100\<close> of the source, is
  converted first, exactly when it is small): the correctly rounded product, or
  \<^verbatim>\<open>inf\<close>, which the model marks with \<open>FloatInfinity\<close>.
\<close>

definition py_float_mul :: "rat \<Rightarrow> rat \<Rightarrow> py_error + rat" where
  "py_float_mul x y =
     (let p = round_double (x * y)
      in if 2 ^ 1024 \<le> \<bar>p\<bar> then Inl FloatInfinity else Inr p)"

text \<open>
  \<^verbatim>\<open>sorted(xs, key=k, reverse=True)\<close>: a stable sort in descending order of the key;
  elements with equal keys keep the order they had in \<open>xs\<close>. Python reverses the list,
  sorts it stably in ascending order and reverses the result.
\<close>

definition py_sorted_reverse :: "('a \<Rightarrow> int) \<Rightarrow> 'a list \<Rightarrow> 'a list" where
  "py_sorted_reverse k xs = rev (sort_key k (rev xs))"

section \<open>License namer\<close>

text \<open>The dictionary literal of \<^verbatim>\<open>get_friendly_license_name\<close>, in source order.\<close>

definition license_names :: "(string \<times> string) list" where
  "license_names =
    [(''ENTERPRISEPACK'', ''Office 365 E3''),
     (''ENTERPRISEPREMIUM'', ''Office 365 E5''),
     (''SPE_E3'', ''Microsoft 365 E3''),
     (''SPE_E5'', ''Microsoft 365 E5''),
     (''STANDARDPACK'', ''Office 365 E1''),
     (''DESKLESSPACK'', ''Office 365 F3''),
     (''EXCHANGESTANDARD'', ''Exchange Online (Plan 1)''),
     (''EXCHANGEENTERPRISE'', ''Exchange Online (Plan 2)''),
     (''SHAREPOINTSTANDARD'', ''SharePoint Online (Plan 1)''),
     (''SHAREPOINTENTERPRISE'', ''SharePoint Online (Plan 2)''),
     (''POWER_BI_STANDARD'', ''Power BI (Free)''),
     (''POWER_BI_PRO'', ''Power BI Pro''),
     (''PROJECTPROFESSIONAL'', ''Project Plan 3''),
     (''VISIOCLIENT'', ''Visio Plan 2''),
     (''TEAMS_EXPLORATORY'', ''Microsoft Teams Exploratory''),
     (''FLOW_FREE'', ''Power Automate Free''),
     (''POWERAPPS_VIRAL'', ''Power Apps Trial'')]"

text \<open>\<^verbatim>\<open>license_names.get(sku_part_number, sku_part_number)\<close>.\<close>

definition get_friendly_license_name :: "string \<Rightarrow> string" where
  "get_friendly_license_name sku_part_number =
     get_default (map_of license_names sku_part_number) sku_part_number"

section \<open>Analyzer\<close>

text \<open>
  \<^verbatim>\<open>any(license['skuId'] == sku_id for license in ...)\<close>: the generator is consumed
  from the left and stops at the first match, so a licence without the key raises only
  when no licence before it matches.
\<close>

fun any_license :: "string \<Rightarrow> license list \<Rightarrow> py_error + bool" where
  "any_license sku_id [] = Inr False"
| "any_license sku_id (l # ls) =
     (case getitem ''skuId'' (license.skuId l) of
        Inl e \<Rightarrow> Inl e
      | Inr i \<Rightarrow> if i = sku_id then Inr True else any_license sku_id ls)"

text \<open>
  The inner loop of \<^verbatim>\<open>analyze_licenses\<close> (source lines 123 to 126); the third
  argument is \<^verbatim>\<open>users_with_license\<close> as built so far.
\<close>

fun users_with_license_loop ::
  "string \<Rightarrow> user list \<Rightarrow> string list \<Rightarrow> py_error + string list" where
  "users_with_license_loop sku_id [] users_with_license = Inr users_with_license"
| "users_with_license_loop sku_id (u # us) users_with_license =
     (case any_license sku_id (get_default (assignedLicenses u) []) of
        Inl e \<Rightarrow> Inl e
      | Inr b \<Rightarrow>
          if b then
            (case getitem ''displayName'' (displayName u) of
               Inl e \<Rightarrow> Inl e
             | Inr n \<Rightarrow> users_with_license_loop sku_id us (users_with_license @ [n]))
          else users_with_license_loop sku_id us users_with_license)"

text \<open>\<^verbatim>\<open>(consumed / enabled * 100) if enabled > 0 else 0\<close> (source line 134).\<close>

definition utilization :: "int \<Rightarrow> int \<Rightarrow> py_error + rat" where
  "utilization consumed enabled' =
     (if enabled' > 0 then
        (case py_truediv consumed enabled' of
           Inl e \<Rightarrow> Inl e
         | Inr q \<Rightarrow> py_float_mul q 100)
      else Inr 0)"

text \<open>The body of the outer loop (source lines 113 to 136), in the source's order of evaluation.\<close>

definition analyze_sku :: "user list \<Rightarrow> sku \<Rightarrow> py_error + license_row" where
  "analyze_sku us s =
     py_bind (getitem ''skuId'' (sku.skuId s)) (\<lambda>sku_id.
     py_bind (getitem ''skuPartNumber'' (skuPartNumber s)) (\<lambda>sku_part_number.
     let friendly_name = get_friendly_license_name sku_part_number in
     py_bind (getitem ''prepaidUnits'' (prepaidUnits s)) (\<lambda>pu.
     py_bind (getitem ''enabled'' (enabled pu)) (\<lambda>enabled'.
     py_bind (getitem ''consumedUnits'' (consumedUnits s)) (\<lambda>consumed.
     let available' = enabled' - consumed in
     py_bind (users_with_license_loop sku_id us []) (\<lambda>users_with_license.
     py_bind (utilization consumed enabled') (\<lambda>pct.
     Inr \<lparr>license_name = friendly_name,
          sku_code = sku_part_number,
          total_licenses = enabled',
          assigned = consumed,
          available = available',
          utilization_pct = pct,
          users = users_with_license\<rparr>)))))))"

text \<open>The outer loop; the third argument is \<^verbatim>\<open>license_data\<close> as built so far.\<close>

fun analyze_loop ::
  "user list \<Rightarrow> sku list \<Rightarrow> license_row list \<Rightarrow> py_error + license_row list" where
  "analyze_loop us [] license_data = Inr license_data"
| "analyze_loop us (s # ss) license_data =
     (case analyze_sku us s of
        Inl e \<Rightarrow> Inl e
      | Inr row \<Rightarrow> analyze_loop us ss (license_data @ [row]))"

definition analyze_licenses :: "sku list \<Rightarrow> user list \<Rightarrow> py_error + license_row list" where
  "analyze_licenses skus us = analyze_loop us skus []"

section \<open>Report writer\<close>

subsection \<open>Spreadsheet: the fill of the utilization column\<close>

text \<open>
  Of \<^verbatim>\<open>create_excel_report\<close> the model has the loop that colours the utilization
  column; the cells' contents, the second sheet and the file name are left out.
\<close>

record pattern_fill =
  start_color :: string
  end_color :: string
  fill_type :: string

definition red_fill :: pattern_fill where
  "red_fill = \<lparr>start_color = ''FFC7CE'', end_color = ''FFC7CE'', fill_type = ''solid''\<rparr>"

definition yellow_fill :: pattern_fill where
  "yellow_fill = \<lparr>start_color = ''FFEB9C'', end_color = ''FFEB9C'', fill_type = ''solid''\<rparr>"

definition green_fill :: pattern_fill where
  "green_fill = \<lparr>start_color = ''C6EFCE'', end_color = ''C6EFCE'', fill_type = ''solid''\<rparr>"

text \<open>The \<^verbatim>\<open>if\<close>/\<^verbatim>\<open>elif\<close>/\<^verbatim>\<open>else\<close> of source lines 178 to 183.\<close>

definition utilization_fill :: "rat \<Rightarrow> pattern_fill" where
  "utilization_fill util_value =
     (if util_value < 50 then red_fill
      else if util_value < 80 then yellow_fill
      else green_fill)"

text \<open>
  The colouring loop of \<^verbatim>\<open>create_excel_report\<close> (source lines 174 to 183): for each
  sheet row from 2 to \<open>len(license_data) + 1\<close>, the fill given to the cell in column 6.
\<close>

definition color_code_utilization :: "license_row list \<Rightarrow> (nat \<times> pattern_fill) list" where
  "color_code_utilization license_data =
     map (\<lambda>row. (row, utilization_fill (utilization_pct (license_data ! (row - 2)))))
       [2 ..< length license_data + 2]"

subsection \<open>Console summary\<close>

text \<open>
  What \<^verbatim>\<open>print_summary\<close> prints: the three totals, the overall utilization, and the
  low-utilization rows in the order they are printed. The formatting of the numbers is
  not modelled. The division of source line 229 comes after the three totals are printed
  and before the low-utilization list is built; when it raises, the model returns the
  exception alone.
\<close>

record summary =
  total_purchased :: int
  total_assigned :: int
  total_available :: int
  overall_utilization :: rat
  low_utilization :: "license_row list"

text \<open>The list comprehension of source line 236.\<close>

definition low_util :: "license_row list \<Rightarrow> license_row list" where
  "low_util license_data =
     filter (\<lambda>lic. utilization_pct lic < 70 \<and> total_licenses lic > 0) license_data"

definition print_summary :: "license_row list \<Rightarrow> py_error + summary" where
  "print_summary license_data =
     (let total_licenses' = sum_list (map total_licenses license_data);
          total_assigned' = sum_list (map assigned license_data);
          total_available' = sum_list (map available license_data)
      in py_bind (py_truediv total_assigned' total_licenses') (\<lambda>q.
         py_bind (py_float_mul q 100) (\<lambda>pct.
         Inr \<lparr>total_purchased = total_licenses',
              total_assigned = total_assigned',
              total_available = total_available',
              overall_utilization = pct,
              low_utilization = py_sorted_reverse available (low_util license_data)\<rparr>)))"

section \<open>Vocabulary of the specification\<close>

text \<open>
  The specification speaks of a user whose ``assigned-license set contains'' a SKU id.
  The set is the collection of \<^verbatim>\<open>skuId\<close> values of the user's
  \<^verbatim>\<open>assignedLicenses\<close>, empty when the user has no such key.
\<close>

definition holds_license :: "user \<Rightarrow> string \<Rightarrow> bool" where
  "holds_license u sku_id =
     (Some sku_id \<in> set (map license.skuId (get_default (assignedLicenses u) [])))"

section \<open>Floats: how far a rounding is from the exact value\<close>

lemma of_int_abs_ge_1: "z \<noteq> 0 \<Longrightarrow> 1 \<le> \<bar>of_int z :: rat\<bar>"
proof -
  assume "z \<noteq> 0"
  then have "1 \<le> \<bar>z\<bar>" by simp
  then have "(of_int 1 :: rat) \<le> of_int \<bar>z\<bar>" by (simp only: of_int_le_iff)
  then show ?thesis by simp
qed

lemma of_int_abs_le_pow2: "\<bar>z\<bar> \<le> 2 ^ n \<Longrightarrow> \<bar>of_int z :: rat\<bar> \<le> 2 ^ n"
proof -
  assume "\<bar>z\<bar> \<le> 2 ^ n"
  then have "(of_int \<bar>z\<bar> :: rat) \<le> of_int (2 ^ n)" by (simp only: of_int_le_iff)
  then show ?thesis by simp
qed

lemma round_double_0: "round_double 0 = 0"
  by (simp add: round_double_def)

lemma round_half_even_close: "\<bar>of_int (round_half_even x) - x\<bar> \<le> 1 / 2"
proof -
  have "of_int \<lfloor>x\<rfloor> \<le> x" "x < of_int \<lfloor>x\<rfloor> + 1" by linarith+
  then show ?thesis
    by (auto simp: round_half_even_def Let_def)
qed

lemma bitlen_lower: "0 < p \<Longrightarrow> (2::rat) powi (bitlen p - 1) \<le> of_int p"
proof -
  assume p: "0 < p"
  then have b: "1 \<le> bitlen p"
    using bitlen_eq_zero_iff [of p] bitlen_nonneg [of p] by linarith
  from bitlen_bounds [OF p] have "(2::int) ^ nat (bitlen p - 1) \<le> p" by simp
  then have "(of_int ((2::int) ^ nat (bitlen p - 1)) :: rat) \<le> of_int p"
    by (simp only: of_int_le_iff)
  with b show ?thesis by (simp add: power_int_def)
qed

lemma bitlen_upper: "0 < q \<Longrightarrow> (of_int q :: rat) \<le> 2 powi (bitlen q)"
proof -
  assume q: "0 < q"
  from bitlen_bounds [OF q] have "q \<le> (2::int) ^ nat (bitlen q)" by simp
  then have "(of_int q :: rat) \<le> of_int ((2::int) ^ nat (bitlen q))"
    by (simp only: of_int_le_iff)
  with bitlen_nonneg [of q] show ?thesis by (simp add: power_int_def)
qed

lemma ilog2_lower:
  assumes "0 < x"
  shows "2 powi (ilog2 x) \<le> x"
proof -
  obtain p q where pq: "quotient_of x = (p, q)" by (cases "quotient_of x")
  then have q: "0 < q" by (rule quotient_of_denom_pos)
  from pq have x: "x = of_int p / of_int q" by (rule quotient_of_div)
  with assms q have p: "0 < p" by (simp add: zero_less_divide_iff)
  let ?le = "bitlen p - bitlen q"
  show ?thesis
  proof (cases "2 powi ?le \<le> x")
    case True
    with pq show ?thesis by (simp add: ilog2_def)
  next
    case False
    have "(2::rat) powi (?le - 1) = 2 powi (bitlen p - 1) / 2 powi (bitlen q)"
      by (simp add: power_int_diff)
    also have "\<dots> \<le> of_int p / 2 powi (bitlen q)"
      using bitlen_lower [OF p] by (simp add: divide_right_mono)
    also have "\<dots> \<le> of_int p / of_int q"
      using bitlen_upper [OF q] p q by (intro divide_left_mono) simp_all
    finally have "(2::rat) powi (?le - 1) \<le> x" by (simp add: x)
    with False pq show ?thesis by (simp add: ilog2_def)
  qed
qed

text \<open>A rounding moves a value by half the spacing of the doubles around it at most.\<close>

lemma round_double_quantum:
  assumes "x \<noteq> 0"
  shows "\<bar>round_double x - x\<bar> \<le> 2 powi (max (ilog2 \<bar>x\<bar> - 52) (- 1074)) / 2"
proof -
  let ?q = "(2::rat) powi (max (ilog2 \<bar>x\<bar> - 52) (- 1074))"
  have q: "0 < ?q" by simp
  have "round_double x - x = (of_int (round_half_even (x / ?q)) - x / ?q) * ?q"
    using assms q by (simp add: round_double_def Let_def algebra_simps)
  then have "\<bar>round_double x - x\<bar> = \<bar>of_int (round_half_even (x / ?q)) - x / ?q\<bar> * ?q"
    using q by (simp add: abs_mult)
  also have "\<dots> \<le> 1 / 2 * ?q"
    using round_half_even_close [of "x / ?q"] q by (intro mult_right_mono) simp_all
  finally show ?thesis by simp
qed

text \<open>In the range of the normal doubles, by one part in \<open>2 ^ 53\<close> at most.\<close>

lemma round_double_relative:
  assumes "2 powi (- 1022) \<le> \<bar>x\<bar>"
  shows "\<bar>round_double x - x\<bar> \<le> \<bar>x\<bar> / 2 ^ 53"
proof -
  have pos: "0 < \<bar>x\<bar>"
    using assms zero_less_power_int [of "2::rat" "- 1022"] by linarith
  then have x: "x \<noteq> 0" by simp
  let ?e = "ilog2 \<bar>x\<bar>"
  have lo: "2 powi ?e \<le> \<bar>x\<bar>" by (rule ilog2_lower [OF pos])
  show ?thesis
  proof (cases "- 1074 \<le> ?e - 52")
    case True
    then have "max (?e - 52) (- 1074) = ?e - 52" by simp
    with round_double_quantum [OF x]
    have "\<bar>round_double x - x\<bar> \<le> 2 powi (?e - 52) / 2" by simp
    also have "\<dots> = 2 powi ?e / 2 ^ 53"
      by (simp add: power_int_diff)
    also have "\<dots> \<le> \<bar>x\<bar> / 2 ^ 53" using lo by (simp add: divide_right_mono)
    finally show ?thesis .
  next
    case False
    then have m: "max (?e - 52) (- 1074) = - 1074" by simp
    from round_double_quantum [OF x] m
    have "\<bar>round_double x - x\<bar> \<le> 2 powi (- 1074) / 2" by simp
    also have "\<dots> = 2 powi (- 1022) / 2 ^ 53"
    proof -
      have "(2::rat) powi (- 1074) = 2 powi (- 1022 - 52)" by simp
      also have "\<dots> = 2 powi (- 1022) / 2 powi 52" by (rule power_int_diff) simp
      finally show ?thesis by simp
    qed
    also have "\<dots> \<le> \<bar>x\<bar> / 2 ^ 53" using assms by (simp add: divide_right_mono)
    finally show ?thesis .
  qed
qed

lemma round_double_bound: "\<bar>round_double x\<bar> \<le> 2 * \<bar>x\<bar> + 1"
proof (cases "x = 0")
  case True
  then show ?thesis by (simp add: round_double_0)
next
  case False
  then have pos: "0 < \<bar>x\<bar>" by simp
  let ?e = "ilog2 \<bar>x\<bar>"
  have lo: "2 powi ?e \<le> \<bar>x\<bar>" by (rule ilog2_lower [OF pos])
  have "(2::rat) powi (max (?e - 52) (- 1074)) / 2 \<le> \<bar>x\<bar> + 1"
  proof (cases "- 1074 \<le> ?e - 52")
    case True
    then have "max (?e - 52) (- 1074) = ?e - 52" by simp
    moreover have "(2::rat) powi (?e - 52) \<le> 2 powi ?e"
      by (intro power_int_increasing) simp_all
    ultimately show ?thesis using lo pos by simp
  next
    case False
    then have "max (?e - 52) (- 1074) = - 1074" by simp
    moreover have "(2::rat) powi (- 1074) \<le> 2 powi 0"
      by (intro power_int_increasing) simp_all
    ultimately show ?thesis using pos by simp
  qed
  with round_double_quantum [OF False] have "\<bar>round_double x - x\<bar> \<le> \<bar>x\<bar> + 1"
    by linarith
  then show ?thesis by linarith
qed

subsection \<open>The percentage \<^verbatim>\<open>a / b * 100\<close>\<close>

text \<open>
  Two roundings, of the quotient and of the product: for a divisor up to \<open>2 ^ 1022\<close>,
  where no quotient of integers is subnormal, the float is within one part in
  \<open>2 ^ 51\<close> of the exact percentage.
\<close>

lemma pct_close:
  assumes q: "py_truediv a b = Inr q" and p: "py_float_mul q 100 = Inr p"
    and b: "\<bar>b\<bar> \<le> 2 ^ 1022"
  shows "\<bar>p - of_int a / of_int b * 100\<bar> \<le> \<bar>of_int a / of_int b * 100\<bar> / 2 ^ 51"
proof -
  define x :: rat where "x = of_int a / of_int b"
  define u :: rat where "u = 1 / 2 ^ 53"
  define T where "T = \<bar>x\<bar> * u"
  from q have b0: "b \<noteq> 0" and q': "q = round_double x"
    by (auto simp: py_truediv_def x_def Let_def split: if_splits)
  from p have p': "p = round_double (q * 100)"
    by (auto simp: py_float_mul_def Let_def split: if_splits)
  have u: "0 < u" "u \<le> 1 / 2" by (simp_all add: u_def)
  have T0: "0 \<le> T" using u by (simp add: T_def)
  have Tu: "T * u \<le> T" using T0 u by (intro mult_left_le) simp_all
  have TX: "T \<le> \<bar>x\<bar> / 2"
  proof -
    have "\<bar>x\<bar> * u \<le> \<bar>x\<bar> * (1 / 2)" using u by (intro mult_left_mono) simp_all
    then show ?thesis by (simp add: T_def)
  qed
  have u4: "4 * u = 1 / 2 ^ 51" by (simp add: u_def)
  show ?thesis
  proof (cases "a = 0")
    case True
    then show ?thesis by (simp add: p' q' x_def round_double_0)
  next
    case False
    have "1 \<le> \<bar>of_int a :: rat\<bar>" using False by (rule of_int_abs_ge_1)
    moreover have "0 < \<bar>of_int b :: rat\<bar>" using b0 by simp
    moreover have "\<bar>of_int b :: rat\<bar> \<le> 2 ^ 1022" using b by (rule of_int_abs_le_pow2)
    ultimately have "1 / 2 ^ 1022 \<le> \<bar>of_int a :: rat\<bar> / \<bar>of_int b\<bar>"
      by (intro frac_le) simp_all
    then have xn: "2 powi (- 1022) \<le> \<bar>x\<bar>"
      by (simp add: x_def power_int_minus_divide)
    from round_double_relative [OF xn] have A: "\<bar>q - x\<bar> \<le> T"
      by (simp add: q' T_def u_def)
    then have ql: "\<bar>x\<bar> - T \<le> \<bar>q\<bar>" and qu: "\<bar>q\<bar> \<le> \<bar>x\<bar> + T" by linarith+
    have "\<bar>x\<bar> \<le> \<bar>q * 100\<bar>" using ql TX by (simp add: abs_mult)
    with xn have "2 powi (- 1022) \<le> \<bar>q * 100\<bar>" by linarith
    from round_double_relative [OF this] have B: "\<bar>p - q * 100\<bar> \<le> 100 * (\<bar>q\<bar> * u)"
      by (simp add: p' u_def abs_mult)
    have "\<bar>q\<bar> * u \<le> (\<bar>x\<bar> + T) * u" using qu u by (intro mult_right_mono) simp_all
    also have "\<dots> = T + T * u" by (simp add: T_def algebra_simps)
    also have "\<dots> \<le> 2 * T" using Tu by simp
    finally have "\<bar>p - q * 100\<bar> \<le> 200 * T" using B by linarith
    moreover have "\<bar>q * 100 - x * 100\<bar> \<le> 100 * T" using A by linarith
    ultimately have "\<bar>p - x * 100\<bar> \<le> 300 * T" by linarith
    also have "\<dots> \<le> 400 * T" using T0 by simp
    also have "\<dots> = \<bar>x * 100\<bar> * (4 * u)" by (simp add: T_def abs_mult)
    also have "\<dots> = \<bar>x * 100\<bar> / 2 ^ 51" by (simp only: u4) simp
    finally show ?thesis by (simp only: x_def)
  qed
qed

text \<open>A dividend up to \<open>2 ^ 1000\<close> keeps both results among the finite doubles.\<close>

lemma pct_returns:
  assumes "b \<noteq> 0" "\<bar>a\<bar> \<le> 2 ^ 1000"
  shows "\<exists>q p. py_truediv a b = Inr q \<and> py_float_mul q 100 = Inr p"
proof -
  let ?x = "of_int a / of_int b :: rat"
  have a: "\<bar>of_int a :: rat\<bar> \<le> 2 ^ 1000" using assms(2) by (rule of_int_abs_le_pow2)
  have b1: "1 \<le> \<bar>of_int b :: rat\<bar>" using assms(1) by (rule of_int_abs_ge_1)
  have "\<bar>of_int a :: rat\<bar> * 1 \<le> \<bar>of_int a\<bar> * \<bar>of_int b\<bar>"
    using b1 by (intro mult_left_mono) simp_all
  moreover have "0 < \<bar>of_int b :: rat\<bar>" using b1 by linarith
  ultimately have "\<bar>of_int a :: rat\<bar> / \<bar>of_int b\<bar> \<le> \<bar>of_int a\<bar>"
    by (simp only: pos_divide_le_eq mult_1_right)
  then have "\<bar>?x\<bar> \<le> \<bar>of_int a\<bar>" by (simp only: abs_divide)
  with a have x: "\<bar>?x\<bar> \<le> 2 ^ 1000" by linarith
  let ?q = "round_double ?x"
  from round_double_bound [of ?x] x have q: "\<bar>?q\<bar> \<le> 2 * 2 ^ 1000 + 1" by linarith
  have "(2::rat) * 2 ^ 1000 + 1 < 2 ^ 1024" by simp
  with q have q1: "\<not> 2 ^ 1024 \<le> \<bar>?q\<bar>" by linarith
  let ?p = "round_double (?q * 100)"
  from round_double_bound [of "?q * 100"] q
  have "\<bar>?p\<bar> \<le> 2 * (100 * (2 * 2 ^ 1000 + 1)) + 1" by (simp add: abs_mult)
  moreover have "(2::rat) * (100 * (2 * 2 ^ 1000 + 1)) + 1 < 2 ^ 1024" by simp
  ultimately have p1: "\<not> 2 ^ 1024 \<le> \<bar>?p\<bar>" by linarith
  from assms(1) q1 p1 show ?thesis
    by (simp add: py_truediv_def py_float_mul_def Let_def)
qed

lemma utilization_no_zero_division: "utilization c e \<noteq> Inl ZeroDivisionError"
  by (auto simp: utilization_def py_truediv_def py_float_mul_def Let_def
      split: sum.splits if_splits)

lemma utilization_nonpos: "e \<le> 0 \<Longrightarrow> utilization c e = Inr 0"
  by (simp add: utilization_def)

lemma utilization_pos:
  assumes "0 < e" "utilization c e = Inr pct"
  shows "\<exists>q. py_truediv c e = Inr q \<and> py_float_mul q 100 = Inr pct"
  using assms by (auto simp: utilization_def split: sum.splits)

lemma utilization_returns:
  assumes "\<bar>c\<bar> \<le> 2 ^ 1000"
  shows "\<exists>pct. utilization c e = Inr pct"
proof (cases "0 < e")
  case True
  then have "e \<noteq> 0" by simp
  from pct_returns [OF this assms] True show ?thesis
    by (auto simp: utilization_def)
next
  case False
  then show ?thesis by (simp add: utilization_def)
qed

subsection \<open>The operations on the numbers of the examples\<close>

lemma truediv_eval:
  assumes "b \<noteq> 0" "round_double (of_int a / of_int b) = q" "\<bar>q\<bar> < 2 ^ 1024"
  shows "py_truediv a b = Inr q"
  using assms by (simp add: py_truediv_def Let_def)

lemma float_mul_eval:
  assumes "round_double (x * y) = p" "\<bar>p\<bar> < 2 ^ 1024"
  shows "py_float_mul x y = Inr p"
  using assms by (simp add: py_float_mul_def Let_def)

lemma truediv_40_100: "py_truediv 40 100 = Inr (3602879701896397 / 9007199254740992)"
  by (rule truediv_eval) (simp, code_simp, simp)

lemma float_mul_40_100: "py_float_mul (3602879701896397 / 9007199254740992) 100 = Inr 40"
  by (rule float_mul_eval) (code_simp, simp)

lemma truediv_1_10: "py_truediv 1 10 = Inr (3602879701896397 / 36028797018963968)"
  by (rule truediv_eval) (simp, code_simp, simp)

lemma float_mul_1_10: "py_float_mul (3602879701896397 / 36028797018963968) 100 = Inr 10"
  by (rule float_mul_eval) (code_simp, simp)

lemma truediv_5_5: "py_truediv 5 5 = Inr 1"
  by (rule truediv_eval) (simp, code_simp, simp)

lemma float_mul_5_5: "py_float_mul 1 100 = Inr 100"
  by (rule float_mul_eval) (code_simp, simp)

lemma truediv_8_5: "py_truediv 8 5 = Inr (3602879701896397 / 2251799813685248)"
  by (rule truediv_eval) (simp, code_simp, simp)

lemma float_mul_8_5: "py_float_mul (3602879701896397 / 2251799813685248) 100 = Inr 160"
  by (rule float_mul_eval) (code_simp, simp)

lemma truediv_29_100: "py_truediv 29 100 = Inr (5224175567749775 / 18014398509481984)"
  by (rule truediv_eval) (simp, code_simp, simp)

lemma float_mul_29_100:
  "py_float_mul (5224175567749775 / 18014398509481984) 100 =
     Inr (8162774324609023 / 281474976710656)"
  by (rule float_mul_eval) (code_simp, simp)

lemma truediv_90_150: "py_truediv 90 150 = Inr (5404319552844595 / 9007199254740992)"
  by (rule truediv_eval) (simp, code_simp, simp)

lemma float_mul_90_150: "py_float_mul (5404319552844595 / 9007199254740992) 100 = Inr 60"
  by (rule float_mul_eval) (code_simp, simp)

lemma truediv_100_250: "py_truediv 100 250 = Inr (3602879701896397 / 9007199254740992)"
  by (rule truediv_eval) (simp, code_simp, simp)

lemmas float_values =
  truediv_40_100 float_mul_40_100 truediv_1_10 float_mul_1_10
  truediv_5_5 float_mul_5_5 truediv_8_5 float_mul_8_5
  truediv_29_100 float_mul_29_100 truediv_90_150 float_mul_90_150
  truediv_100_250

section \<open>The analyzer's loops\<close>

lemmas analyzer_eval = analyze_licenses_def analyze_sku_def py_bind_def getitem_def
  get_default_def utilization_def float_values get_friendly_license_name_def
  license_names_def holds_license_def

subsection \<open>What a successful run returns\<close>

lemma any_license_Inr:
  "any_license sid ls = Inr b \<Longrightarrow> b = (Some sid \<in> set (map license.skuId ls))"
  by (induction ls) (auto simp: getitem_def split: option.splits if_splits)

lemma users_loop_Inr:
  "users_with_license_loop sid us acc = Inr r \<Longrightarrow>
     map Some r = map Some acc @ map displayName (filter (\<lambda>u. holds_license u sid) us)"
proof (induction us arbitrary: acc)
  case Nil
  then show ?case by simp
next
  case (Cons u us)
  show ?case
  proof (cases "any_license sid (get_default (assignedLicenses u) [])")
    case (Inl e)
    with Cons.prems show ?thesis by simp
  next
    case (Inr b)
    from any_license_Inr [OF this] have b: "b = holds_license u sid"
      by (simp add: holds_license_def)
    show ?thesis
    proof (cases b)
      case True
      with Inr Cons.prems obtain n where n: "displayName u = Some n"
        and rest: "users_with_license_loop sid us (acc @ [n]) = Inr r"
        by (auto simp: getitem_def split: option.splits)
      from Cons.IH [OF rest] n b True show ?thesis by simp
    next
      case False
      with Inr Cons.prems have "users_with_license_loop sid us acc = Inr r" by simp
      from Cons.IH [OF this] b False show ?thesis by simp
    qed
  qed
qed

lemma analyze_sku_Inr:
  assumes "analyze_sku us s = Inr row"
  obtains sid pn pu e c ns pct where
    "sku.skuId s = Some sid" "skuPartNumber s = Some pn" "prepaidUnits s = Some pu"
    "enabled pu = Some e" "consumedUnits s = Some c"
    "users_with_license_loop sid us [] = Inr ns"
    "utilization c e = Inr pct"
    "row = \<lparr>license_name = get_friendly_license_name pn, sku_code = pn, total_licenses = e,
            assigned = c, available = e - c, utilization_pct = pct, users = ns\<rparr>"
  using assms
  by (auto simp: analyze_sku_def py_bind_def getitem_def Let_def
      split: option.splits sum.splits)

lemma analyze_loop_Inr:
  "analyze_loop us ss acc = Inr rows \<Longrightarrow>
     \<exists>rs. rows = acc @ rs \<and> list_all2 (\<lambda>s r. analyze_sku us s = Inr r) ss rs"
proof (induction ss arbitrary: acc)
  case Nil
  then show ?case by simp
next
  case (Cons s ss)
  then obtain row where row: "analyze_sku us s = Inr row"
    and rest: "analyze_loop us ss (acc @ [row]) = Inr rows"
    by (auto split: sum.splits)
  from Cons.IH [OF rest] obtain rs where "rows = (acc @ [row]) @ rs"
    and "list_all2 (\<lambda>s r. analyze_sku us s = Inr r) ss rs" by blast
  with row have "rows = acc @ (row # rs) \<and>
      list_all2 (\<lambda>s r. analyze_sku us s = Inr r) (s # ss) (row # rs)"
    by simp
  then show ?case by blast
qed

lemma analyze_licenses_rows:
  "analyze_licenses skus us = Inr rows \<Longrightarrow>
     list_all2 (\<lambda>s r. analyze_sku us s = Inr r) skus rows"
  using analyze_loop_Inr [of us skus "[]" rows] by (auto simp: analyze_licenses_def)

lemma analyze_licenses_nth:
  assumes "analyze_licenses skus us = Inr rows" "i < length skus"
  shows "length rows = length skus" "analyze_sku us (skus ! i) = Inr (rows ! i)"
  using analyze_licenses_rows [OF assms(1)] assms(2)
  by (auto simp: list_all2_conv_all_nth)

lemma row_users:
  assumes "analyze_sku us s = Inr row" "sku.skuId s = Some sid"
  shows "map Some (users row) = map displayName (filter (\<lambda>u. holds_license u sid) us)"
proof -
  from assms(1) obtain sid' ns where "sku.skuId s = Some sid'"
    "users_with_license_loop sid' us [] = Inr ns" "users row = ns"
    by (rule analyze_sku_Inr) simp
  with assms(2) users_loop_Inr [of sid us "[]" ns] show ?thesis by simp
qed

lemma count_list_map_filter:
  "count_list (map f xs) y = length (filter (\<lambda>x. f x = y) xs)"
  by (induction xs) auto

lemma count_list_map_Some: "count_list (map Some xs) (Some y) = count_list xs y"
  by (induction xs) auto

subsection \<open>No run ends in a division by zero\<close>

lemma any_license_Inl: "any_license sid ls = Inl e \<Longrightarrow> e = KeyError ''skuId''"
  by (induction ls) (auto simp: getitem_def split: option.splits if_splits)

lemma users_loop_Inl:
  "users_with_license_loop sid us acc = Inl e \<Longrightarrow> e \<noteq> ZeroDivisionError"
proof (induction us arbitrary: acc)
  case Nil
  then show ?case by simp
next
  case (Cons u us)
  then show ?case
    by (auto simp: getitem_def dest: any_license_Inl split: sum.splits if_splits option.splits)
qed

lemma analyze_sku_Inl: "analyze_sku us s = Inl e \<Longrightarrow> e \<noteq> ZeroDivisionError"
  by (auto simp: analyze_sku_def py_bind_def getitem_def Let_def utilization_no_zero_division
      dest: users_loop_Inl split: option.splits sum.splits)

lemma analyze_loop_Inl: "analyze_loop us ss acc = Inl e \<Longrightarrow> e \<noteq> ZeroDivisionError"
proof (induction ss arbitrary: acc)
  case Nil
  then show ?case by simp
next
  case (Cons s ss)
  then show ?case
    by (auto dest: analyze_sku_Inl split: sum.splits)
qed

subsection \<open>The analyzer returns on every input that has the keys it subscripts\<close>

text \<open>Consumed-unit counts up to \<open>2 ^ 1000\<close> keep the floats finite.\<close>

lemma any_license_total:
  "\<forall>l \<in> set ls. license.skuId l \<noteq> None \<Longrightarrow> \<exists>b. any_license sid ls = Inr b"
  by (induction ls) (auto simp: getitem_def)

lemma users_loop_total:
  "\<forall>u \<in> set us. displayName u \<noteq> None \<and>
      (\<forall>l \<in> set (get_default (assignedLicenses u) []). license.skuId l \<noteq> None) \<Longrightarrow>
   \<exists>ns. users_with_license_loop sid us acc = Inr ns"
proof (induction us arbitrary: acc)
  case Nil
  then show ?case by simp
next
  case (Cons u us)
  then obtain b where "any_license sid (get_default (assignedLicenses u) []) = Inr b"
    using any_license_total [of "get_default (assignedLicenses u) []" sid] by auto
  moreover from Cons.prems obtain n where "displayName u = Some n" by auto
  ultimately show ?case using Cons by (auto simp: getitem_def)
qed

lemma analyze_sku_total:
  assumes "sku.skuId s \<noteq> None" "skuPartNumber s \<noteq> None"
    "\<exists>pu. prepaidUnits s = Some pu \<and> enabled pu \<noteq> None"
    "\<exists>c. consumedUnits s = Some c \<and> \<bar>c\<bar> \<le> 2 ^ 1000"
    "\<forall>u \<in> set us. displayName u \<noteq> None \<and>
      (\<forall>l \<in> set (get_default (assignedLicenses u) []). license.skuId l \<noteq> None)"
  shows "\<exists>row. analyze_sku us s = Inr row"
proof -
  from assms obtain sid pn pu e c where f: "sku.skuId s = Some sid" "skuPartNumber s = Some pn"
    "prepaidUnits s = Some pu" "enabled pu = Some e" "consumedUnits s = Some c"
    and c: "\<bar>c\<bar> \<le> 2 ^ 1000" by auto
  from users_loop_total [OF assms(5)] obtain ns where
    "users_with_license_loop sid us [] = Inr ns" by blast
  moreover from utilization_returns [OF c] obtain pct where "utilization c e = Inr pct"
    by blast
  ultimately show ?thesis using f
    by (simp add: analyze_sku_def py_bind_def getitem_def Let_def)
qed

lemma analyze_loop_total:
  assumes "\<forall>s \<in> set ss. \<exists>row. analyze_sku us s = Inr row"
  shows "\<exists>rows. analyze_loop us ss acc = Inr rows"
  using assms by (induction ss arbitrary: acc) auto

lemma analyze_licenses_total:
  assumes "\<forall>s \<in> set skus. sku.skuId s \<noteq> None \<and> skuPartNumber s \<noteq> None \<and>
      (\<exists>pu. prepaidUnits s = Some pu \<and> enabled pu \<noteq> None) \<and>
      (\<exists>c. consumedUnits s = Some c \<and> \<bar>c\<bar> \<le> 2 ^ 1000)"
    "\<forall>u \<in> set us. displayName u \<noteq> None \<and>
      (\<forall>l \<in> set (get_default (assignedLicenses u) []). license.skuId l \<noteq> None)"
  shows "\<exists>rows. analyze_licenses skus us = Inr rows"
  unfolding analyze_licenses_def
  by (rule analyze_loop_total) (use assms analyze_sku_total in blast)

subsection \<open>A user that no licence test selects leaves no trace\<close>

lemma users_loop_skip:
  assumes "any_license sid (get_default (assignedLicenses u) []) = Inr False"
  shows "users_with_license_loop sid (us1 @ u # us2) acc =
         users_with_license_loop sid (us1 @ us2) acc"
  using assms by (induction us1 arbitrary: acc) (auto split: sum.splits option.splits)

lemma analyze_sku_cong:
  assumes "\<And>sid. users_with_license_loop sid us [] = users_with_license_loop sid us' []"
  shows "analyze_sku us s = analyze_sku us' s"
  by (simp add: analyze_sku_def assms)

lemma analyze_loop_cong:
  assumes "\<And>s. analyze_sku us s = analyze_sku us' s"
  shows "analyze_loop us ss acc = analyze_loop us' ss acc"
  by (induction ss arbitrary: acc) (auto simp: assms split: sum.splits)

lemma analyze_licenses_cong:
  assumes "\<And>sid. users_with_license_loop sid us [] = users_with_license_loop sid us' []"
  shows "analyze_licenses skus us = analyze_licenses skus us'"
  unfolding analyze_licenses_def
  by (rule analyze_loop_cong, rule analyze_sku_cong, rule assms)

section \<open>The report writer's loops\<close>

lemma color_code_length:
  "length (color_code_utilization license_data) = length license_data"
  unfolding color_code_utilization_def
  by (simp only: length_map length_upt add_diff_cancel_right')

lemma color_code_nth:
  assumes "i < length license_data"
  shows "color_code_utilization license_data ! i =
       (i + 2, utilization_fill (utilization_pct (license_data ! i)))"
proof -
  have len: "i < length [2 ..< length license_data + 2]"
    using assms by (simp only: length_upt add_diff_cancel_right')
  have "[2 ..< length license_data + 2] ! i = 2 + i"
    using assms by (intro nth_upt) linarith
  then show ?thesis
    unfolding color_code_utilization_def by (simp only: nth_map [OF len]) simp
qed

lemma py_sorted_reverse_mset: "mset (py_sorted_reverse k xs) = mset xs"
  by (simp add: py_sorted_reverse_def)

lemma py_sorted_reverse_desc:
  "sorted_wrt (\<lambda>a b. k a \<ge> k b) (py_sorted_reverse k xs)"
proof -
  have "sorted (map k (sort_key k (rev xs)))" by simp
  then have "sorted_wrt (\<lambda>a b. k a \<le> k b) (sort_key k (rev xs))"
    by (simp add: sorted_map)
  then show ?thesis
    by (simp add: py_sorted_reverse_def sorted_wrt_rev)
qed

lemma license_names_keys: "distinct (map fst license_names)"
  by (simp add: license_names_def)

section \<open>Analyzer: the claims\<close>

text \<open>
  Claim C1, as the code has it. Let the analyzer return rows for a SKU list and a user
  list. A display name is in the user list of the row of a SKU if and only if some user
  bearing that display name has the SKU's id in their assigned-license set. The row's list
  holds names, not users: two users of one display name are not told apart, so the name
  of a user who does not hold the SKU is listed when a namesake holds it. Where display
  names are pairwise different this is the claim as the specification words it.
\<close>

theorem user_listed_iff_some_holder:
  assumes "analyze_licenses skus us = Inr rows" "i < length skus"
    "sku.skuId (skus ! i) = Some sid"
  shows "n \<in> set (users (rows ! i)) \<longleftrightarrow>
         (\<exists>u \<in> set us. displayName u = Some n \<and> holds_license u sid)"
proof -
  have "n \<in> set (users (rows ! i)) \<longleftrightarrow> Some n \<in> set (map Some (users (rows ! i)))"
    by auto
  also have "\<dots> \<longleftrightarrow> Some n \<in> set (map displayName (filter (\<lambda>u. holds_license u sid) us))"
    using row_users [OF analyze_licenses_nth(2) [OF assms(1,2)] assms(3)] by simp
  also have "\<dots> \<longleftrightarrow> (\<exists>u \<in> set us. displayName u = Some n \<and> holds_license u sid)"
    by (auto simp: image_iff)
  finally show ?thesis .
qed

text \<open>
  The theorem at a tenant of two users, Alice holding SKU \<open>A\<close> and Bob holding nothing:
  Bob is not in the row of \<open>A\<close>.
\<close>

theorem user_listed_iff_some_holder_witness:
  "analyze_licenses
     [\<lparr>sku.skuId = Some ''A'', skuPartNumber = Some ''SPE_E3'',
       prepaidUnits = Some \<lparr>enabled = Some 100\<rparr>, consumedUnits = Some 40\<rparr>]
     [\<lparr>displayName = Some ''Alice'', userPrincipalName = Some ''alice@contoso.com'',
       assignedLicenses = Some [\<lparr>license.skuId = Some ''A''\<rparr>]\<rparr>,
      \<lparr>displayName = Some ''Bob'', userPrincipalName = Some ''bob@contoso.com'',
       assignedLicenses = Some []\<rparr>]
   = Inr [\<lparr>license_name = ''Microsoft 365 E3'', sku_code = ''SPE_E3'', total_licenses = 100,
           assigned = 40, available = 60, utilization_pct = 40, users = [''Alice'']\<rparr>] \<and>
   ''Bob'' \<notin> set [''Alice''] \<and>
   \<not> (\<exists>u \<in> set [\<lparr>displayName = Some ''Alice'', userPrincipalName = Some ''alice@contoso.com'',
       assignedLicenses = Some [\<lparr>license.skuId = Some ''A''\<rparr>]\<rparr>,
      \<lparr>displayName = Some ''Bob'', userPrincipalName = Some ''bob@contoso.com'',
       assignedLicenses = Some []\<rparr>]. displayName u = Some ''Bob'' \<and> holds_license u ''A'')"
proof -
  let ?skus = "[\<lparr>sku.skuId = Some ''A'', skuPartNumber = Some ''SPE_E3'',
       prepaidUnits = Some \<lparr>enabled = Some 100\<rparr>, consumedUnits = Some 40\<rparr>]"
  let ?us = "[\<lparr>displayName = Some ''Alice'', userPrincipalName = Some ''alice@contoso.com'',
       assignedLicenses = Some [\<lparr>license.skuId = Some ''A''\<rparr>]\<rparr>,
      \<lparr>displayName = Some ''Bob'', userPrincipalName = Some ''bob@contoso.com'',
       assignedLicenses = Some []\<rparr>]"
  let ?rows = "[\<lparr>license_name = ''Microsoft 365 E3'', sku_code = ''SPE_E3'',
       total_licenses = 100, assigned = 40, available = 60, utilization_pct = 40,
       users = [''Alice'']\<rparr>]"
  have r: "analyze_licenses ?skus ?us = Inr ?rows" by (simp add: analyzer_eval)
  have i: "0 < length ?skus" by simp
  have k: "sku.skuId (?skus ! 0) = Some ''A''" by simp
  from user_listed_iff_some_holder [OF r i k, of "''Bob''"] r show ?thesis by simp
qed

text \<open>
  The claim as the specification words it fails where two users share a display name:
  the second Alice holds no licence, yet her name is in the row of SKU \<open>A\<close>.
\<close>

theorem user_listed_iff_own_license_counterexample:
  "analyze_licenses
     [\<lparr>sku.skuId = Some ''A'', skuPartNumber = Some ''SPE_E3'',
       prepaidUnits = Some \<lparr>enabled = Some 100\<rparr>, consumedUnits = Some 40\<rparr>]
     [\<lparr>displayName = Some ''Alice'', userPrincipalName = Some ''alice@contoso.com'',
       assignedLicenses = Some [\<lparr>license.skuId = Some ''A''\<rparr>]\<rparr>,
      \<lparr>displayName = Some ''Alice'', userPrincipalName = Some ''alice2@contoso.com'',
       assignedLicenses = Some []\<rparr>]
   = Inr [\<lparr>license_name = ''Microsoft 365 E3'', sku_code = ''SPE_E3'', total_licenses = 100,
           assigned = 40, available = 60, utilization_pct = 40, users = [''Alice'']\<rparr>] \<and>
   \<not> (''Alice'' \<in> set [''Alice''] \<longleftrightarrow>
      holds_license \<lparr>displayName = Some ''Alice'',
        userPrincipalName = Some ''alice2@contoso.com'', assignedLicenses = Some []\<rparr> ''A'')"
  by (simp add: analyzer_eval)

text \<open>
  Claim C2. The analyzer never raises a division by zero, whatever its input. In a row it
  returns, the utilization is exactly 0 when the enabled-unit count is 0 (and whenever it
  is not positive: the source's guard is \<^verbatim>\<open>enabled > 0\<close>). When the count is
  positive, which on the unit counts of the data model, none of them negative, is every
  other case, the utilization is the float the program computes: the quotient consumed /
  enabled rounded to a double, times 100, rounded again. That float is within one part
  in \<open>2 ^ 51\<close> of the exact consumed / enabled * 100; the bound is proved for enabled
  counts up to \<open>2 ^ 1022\<close>, beyond which a quotient can be subnormal.
\<close>

theorem utilization_pct_guarded:
  "analyze_licenses skus us \<noteq> Inl ZeroDivisionError \<and>
   (analyze_licenses skus us = Inr rows \<longrightarrow> i < length skus \<longrightarrow>
    prepaidUnits (skus ! i) = Some pu \<longrightarrow> enabled pu = Some e \<longrightarrow>
    consumedUnits (skus ! i) = Some c \<longrightarrow>
      (e \<le> 0 \<longrightarrow> utilization_pct (rows ! i) = 0) \<and>
      (0 < e \<longrightarrow>
         utilization_pct (rows ! i) =
           round_double (round_double (of_int c / of_int e) * 100) \<and>
         (e \<le> 2 ^ 1022 \<longrightarrow>
            \<bar>utilization_pct (rows ! i) - of_int c / of_int e * 100\<bar>
              \<le> \<bar>of_int c / of_int e * 100\<bar> / 2 ^ 51)))"
proof (intro conjI impI)
  show "analyze_licenses skus us \<noteq> Inl ZeroDivisionError"
    using analyze_loop_Inl [of us skus "[]" ZeroDivisionError]
    by (auto simp: analyze_licenses_def)
next
  assume a: "analyze_licenses skus us = Inr rows" "i < length skus"
    "prepaidUnits (skus ! i) = Some pu" "enabled pu = Some e"
    "consumedUnits (skus ! i) = Some c"
  from analyze_licenses_nth(2) [OF a(1,2)]
  have u: "utilization c e = Inr (utilization_pct (rows ! i))"
    by (rule analyze_sku_Inr) (use a in simp)
  { assume "e \<le> 0"
    with u show "utilization_pct (rows ! i) = 0" by (simp add: utilization_nonpos) }
  { assume e: "0 < e"
    from utilization_pos [OF e u] obtain q where q: "py_truediv c e = Inr q"
      and p: "py_float_mul q 100 = Inr (utilization_pct (rows ! i))" by blast
    from q have "q = round_double (of_int c / of_int e)"
      by (auto simp: py_truediv_def Let_def split: if_splits)
    moreover from p have "utilization_pct (rows ! i) = round_double (q * 100)"
      by (auto simp: py_float_mul_def Let_def split: if_splits)
    ultimately show "utilization_pct (rows ! i) =
        round_double (round_double (of_int c / of_int e) * 100)" by simp
    { assume "e \<le> 2 ^ 1022"
      with e have "\<bar>e\<bar> \<le> 2 ^ 1022" by simp
      from pct_close [OF q p this]
      show "\<bar>utilization_pct (rows ! i) - of_int c / of_int e * 100\<bar>
              \<le> \<bar>of_int c / of_int e * 100\<bar> / 2 ^ 51" . } }
qed

text \<open>
  The theorem at two SKUs, one with nothing enabled and one with 29 of 100 units
  consumed: utilization 0, and the double that Python prints as 28.999999999999996,
  which is not 29 and is within the bound of it.
\<close>

theorem utilization_pct_guarded_witness:
  "analyze_licenses
     [\<lparr>sku.skuId = Some ''A'', skuPartNumber = Some ''FLOW_FREE'',
       prepaidUnits = Some \<lparr>enabled = Some 0\<rparr>, consumedUnits = Some 0\<rparr>,
      \<lparr>sku.skuId = Some ''B'', skuPartNumber = Some ''SPE_E3'',
       prepaidUnits = Some \<lparr>enabled = Some 100\<rparr>, consumedUnits = Some 29\<rparr>] []
   = Inr [\<lparr>license_name = ''Power Automate Free'', sku_code = ''FLOW_FREE'',
           total_licenses = 0, assigned = 0, available = 0, utilization_pct = 0, users = []\<rparr>,
          \<lparr>license_name = ''Microsoft 365 E3'', sku_code = ''SPE_E3'', total_licenses = 100,
           assigned = 29, available = 71,
           utilization_pct = 8162774324609023 / 281474976710656, users = []\<rparr>] \<and>
   (0::int) \<le> 0 \<and> (0::int) < 100 \<and> (100::int) \<le> 2 ^ 1022 \<and>
   \<bar>8162774324609023 / 281474976710656 - rat_of_int 29 / rat_of_int 100 * 100\<bar>
     \<le> \<bar>rat_of_int 29 / rat_of_int 100 * 100\<bar> / 2 ^ 51 \<and>
   8162774324609023 / 281474976710656 \<noteq> rat_of_int 29 / rat_of_int 100 * 100"
proof -
  let ?a = "\<lparr>sku.skuId = Some ''A'', skuPartNumber = Some ''FLOW_FREE'',
       prepaidUnits = Some \<lparr>enabled = Some 0\<rparr>, consumedUnits = Some 0\<rparr>"
  let ?b = "\<lparr>sku.skuId = Some ''B'', skuPartNumber = Some ''SPE_E3'',
       prepaidUnits = Some \<lparr>enabled = Some 100\<rparr>, consumedUnits = Some 29\<rparr>"
  let ?ra = "\<lparr>license_name = ''Power Automate Free'', sku_code = ''FLOW_FREE'',
           total_licenses = 0, assigned = 0, available = 0, utilization_pct = 0, users = []\<rparr>"
  let ?rb = "\<lparr>license_name = ''Microsoft 365 E3'', sku_code = ''SPE_E3'',
           total_licenses = 100, assigned = 29, available = 71,
           utilization_pct = 8162774324609023 / 281474976710656, users = []\<rparr>"
  have r: "analyze_licenses [?a, ?b] [] = Inr [?ra, ?rb]" by (simp add: analyzer_eval)
  have n: "(8162774324609023 / 281474976710656 :: rat) \<noteq> rat_of_int 29 / rat_of_int 100 * 100"
    by simp
  have i: "(1::nat) < length [?a, ?b]" by simp
  have h: "prepaidUnits ([?a, ?b] ! 1) = Some \<lparr>enabled = Some 100\<rparr>"
    "enabled \<lparr>enabled = Some 100\<rparr> = Some 100" "consumedUnits ([?a, ?b] ! 1) = Some 29"
    by simp_all
  have e: "(0::int) < 100" "(100::int) \<le> 2 ^ 1022" by simp_all
  from utilization_pct_guarded
    [of "[?a, ?b]" "[]" "[?ra, ?rb]" 1 "\<lparr>enabled = Some 100\<rparr>" 100 29,
      THEN conjunct2, rule_format, OF r i h, THEN conjunct2, rule_format, OF e(1),
      THEN conjunct2, rule_format, OF e(2)]
  have "\<bar>utilization_pct ([?ra, ?rb] ! 1) - rat_of_int 29 / rat_of_int 100 * 100\<bar>
     \<le> \<bar>rat_of_int 29 / rat_of_int 100 * 100\<bar> / 2 ^ 51" .
  then have t: "\<bar>8162774324609023 / 281474976710656 - rat_of_int 29 / rat_of_int 100 * 100\<bar>
     \<le> \<bar>rat_of_int 29 / rat_of_int 100 * 100\<bar> / 2 ^ 51" by simp
  from r n t e show ?thesis by simp
qed

text \<open>
  Claim C3. When the analyzer returns, it returns as many rows as the SKU list has
  entries, and the row at each position is the analysis of the SKU at that position (it
  bears that SKU's part-number code): the rows are in the order of the input. The
  directory returns each SKU once, its id being its identity; for such a list every SKU
  has exactly one position, hence exactly one row.
\<close>

theorem one_row_per_sku_in_order:
  assumes "analyze_licenses skus us = Inr rows"
  shows "length rows = length skus \<and>
         (\<forall>i < length skus. analyze_sku us (skus ! i) = Inr (rows ! i) \<and>
            skuPartNumber (skus ! i) = Some (sku_code (rows ! i))) \<and>
         (distinct (map sku.skuId skus) \<longrightarrow>
            (\<forall>s \<in> set skus. \<exists>!i. i < length rows \<and> sku.skuId (skus ! i) = sku.skuId s))"
proof (intro conjI allI impI ballI)
  from analyze_licenses_rows [OF assms] show len: "length rows = length skus"
    by (simp add: list_all2_lengthD)
  { fix i assume i: "i < length skus"
    from analyze_licenses_nth(2) [OF assms i]
    show "analyze_sku us (skus ! i) = Inr (rows ! i)" .
    then show "skuPartNumber (skus ! i) = Some (sku_code (rows ! i))"
      by (rule analyze_sku_Inr) simp }
  { fix s assume d: "distinct (map sku.skuId skus)" and s: "s \<in> set skus"
    from s have "sku.skuId s \<in> set (map sku.skuId skus)" by simp
    from distinct_Ex1 [OF d this] len
    show "\<exists>!i. i < length rows \<and> sku.skuId (skus ! i) = sku.skuId s"
      by (simp cong: conj_cong) }
qed

text \<open>The theorem at a list of two SKUs: two rows, in the order of the list.\<close>

theorem one_row_per_sku_in_order_witness:
  "analyze_licenses
     [\<lparr>sku.skuId = Some ''B'', skuPartNumber = Some ''VISIOCLIENT'',
       prepaidUnits = Some \<lparr>enabled = Some 5\<rparr>, consumedUnits = Some 5\<rparr>,
      \<lparr>sku.skuId = Some ''A'', skuPartNumber = Some ''CUSTOM_SKU'',
       prepaidUnits = Some \<lparr>enabled = Some 10\<rparr>, consumedUnits = Some 1\<rparr>] []
   = Inr [\<lparr>license_name = ''Visio Plan 2'', sku_code = ''VISIOCLIENT'', total_licenses = 5,
           assigned = 5, available = 0, utilization_pct = 100, users = []\<rparr>,
          \<lparr>license_name = ''CUSTOM_SKU'', sku_code = ''CUSTOM_SKU'', total_licenses = 10,
           assigned = 1, available = 9, utilization_pct = 10, users = []\<rparr>] \<and>
   length [\<lparr>license_name = ''Visio Plan 2'', sku_code = ''VISIOCLIENT'', total_licenses = 5,
           assigned = 5, available = 0, utilization_pct = 100, users = []\<rparr>,
          \<lparr>license_name = ''CUSTOM_SKU'', sku_code = ''CUSTOM_SKU'', total_licenses = 10,
           assigned = 1, available = 9, utilization_pct = (10::rat), users = []\<rparr>] = (2::nat)"
proof -
  let ?skus = "[\<lparr>sku.skuId = Some ''B'', skuPartNumber = Some ''VISIOCLIENT'',
       prepaidUnits = Some \<lparr>enabled = Some 5\<rparr>, consumedUnits = Some 5\<rparr>,
      \<lparr>sku.skuId = Some ''A'', skuPartNumber = Some ''CUSTOM_SKU'',
       prepaidUnits = Some \<lparr>enabled = Some 10\<rparr>, consumedUnits = Some 1\<rparr>]"
  let ?rows = "[\<lparr>license_name = ''Visio Plan 2'', sku_code = ''VISIOCLIENT'',
       total_licenses = 5, assigned = 5, available = 0, utilization_pct = 100, users = []\<rparr>,
      \<lparr>license_name = ''CUSTOM_SKU'', sku_code = ''CUSTOM_SKU'', total_licenses = 10,
       assigned = 1, available = 9, utilization_pct = 10, users = []\<rparr>]"
  have r: "analyze_licenses ?skus [] = Inr ?rows" by (simp add: analyzer_eval)
  from one_row_per_sku_in_order [OF r] r show ?thesis by simp
qed

text \<open>
  Claim C7. In a row the analyzer returns, the available count is the enabled-unit count
  minus the consumed-unit count, as an integer difference: nothing clamps it, and it is
  negative when more units are consumed than enabled.
\<close>

theorem available_not_clamped:
  assumes "analyze_licenses skus us = Inr rows" "i < length skus"
    "prepaidUnits (skus ! i) = Some pu" "enabled pu = Some e"
    "consumedUnits (skus ! i) = Some c"
  shows "available (rows ! i) = e - c"
  using analyze_licenses_nth(2) [OF assms(1,2)]
  by (rule analyze_sku_Inr) (use assms in simp)

text \<open>The theorem at a SKU with 5 units enabled and 8 consumed: 3 below zero.\<close>

theorem available_not_clamped_witness:
  "analyze_licenses
     [\<lparr>sku.skuId = Some ''A'', skuPartNumber = Some ''POWER_BI_PRO'',
       prepaidUnits = Some \<lparr>enabled = Some 5\<rparr>, consumedUnits = Some 8\<rparr>] []
   = Inr [\<lparr>license_name = ''Power BI Pro'', sku_code = ''POWER_BI_PRO'', total_licenses = 5,
           assigned = 8, available = - 3, utilization_pct = 160, users = []\<rparr>] \<and>
   (5::int) - 8 = - 3"
proof -
  let ?skus = "[\<lparr>sku.skuId = Some ''A'', skuPartNumber = Some ''POWER_BI_PRO'',
       prepaidUnits = Some \<lparr>enabled = Some 5\<rparr>, consumedUnits = Some 8\<rparr>]"
  let ?rows = "[\<lparr>license_name = ''Power BI Pro'', sku_code = ''POWER_BI_PRO'',
       total_licenses = 5, assigned = 8, available = - 3, utilization_pct = 160,
       users = []\<rparr>]"
  have r: "analyze_licenses ?skus [] = Inr ?rows" by (simp add: analyzer_eval)
  from available_not_clamped [OF r, of 0 "\<lparr>enabled = Some 5\<rparr>" 5 8] r
  show ?thesis by simp
qed

text \<open>
  Claim C9, as the code has it. A user record without the \<^verbatim>\<open>assignedLicenses\<close> key
  is read as one whose collection is empty, and no key error comes of it: the analyzer's
  result, rows or exception alike, is what it is with the key present and empty, and what
  it is with the user taken out of the list. The user therefore adds no entry to any
  row's user list. The name itself is still listed where another user of the same
  display name holds the SKU.
\<close>

theorem missing_assigned_licenses_as_empty:
  assumes "assignedLicenses u = None"
  shows "analyze_licenses skus (us1 @ u # us2) =
           analyze_licenses skus (us1 @ u\<lparr>assignedLicenses := Some []\<rparr> # us2) \<and>
         analyze_licenses skus (us1 @ u # us2) = analyze_licenses skus (us1 @ us2)"
proof
  have rem: "analyze_licenses skus (us1 @ u # us2) = analyze_licenses skus (us1 @ us2)"
    by (rule analyze_licenses_cong, rule users_loop_skip) (simp add: assms get_default_def)
  have "analyze_licenses skus (us1 @ u\<lparr>assignedLicenses := Some []\<rparr> # us2) =
        analyze_licenses skus (us1 @ us2)"
    by (rule analyze_licenses_cong, rule users_loop_skip) (simp add: get_default_def)
  with rem show "analyze_licenses skus (us1 @ u # us2) =
           analyze_licenses skus (us1 @ u\<lparr>assignedLicenses := Some []\<rparr> # us2)" by simp
  show "analyze_licenses skus (us1 @ u # us2) = analyze_licenses skus (us1 @ us2)"
    by (rule rem)
qed

text \<open>
  The theorem at a tenant where Carol has no \<^verbatim>\<open>assignedLicenses\<close> key and Alice
  holds SKU \<open>A\<close>: the row lists Alice alone.
\<close>

theorem missing_assigned_licenses_as_empty_witness:
  "assignedLicenses \<lparr>displayName = Some ''Carol'',
      userPrincipalName = Some ''carol@contoso.com'', assignedLicenses = None\<rparr> = None \<and>
   analyze_licenses
     [\<lparr>sku.skuId = Some ''A'', skuPartNumber = Some ''SPE_E5'',
       prepaidUnits = Some \<lparr>enabled = Some 10\<rparr>, consumedUnits = Some 1\<rparr>]
     [\<lparr>displayName = Some ''Alice'', userPrincipalName = Some ''alice@contoso.com'',
       assignedLicenses = Some [\<lparr>license.skuId = Some ''A''\<rparr>]\<rparr>,
      \<lparr>displayName = Some ''Carol'', userPrincipalName = Some ''carol@contoso.com'',
       assignedLicenses = None\<rparr>]
   = Inr [\<lparr>license_name = ''Microsoft 365 E5'', sku_code = ''SPE_E5'', total_licenses = 10,
           assigned = 1, available = 9, utilization_pct = 10, users = [''Alice'']\<rparr>]"
proof -
  let ?skus = "[\<lparr>sku.skuId = Some ''A'', skuPartNumber = Some ''SPE_E5'',
       prepaidUnits = Some \<lparr>enabled = Some 10\<rparr>, consumedUnits = Some 1\<rparr>]"
  let ?alice = "\<lparr>displayName = Some ''Alice'', userPrincipalName = Some ''alice@contoso.com'',
       assignedLicenses = Some [\<lparr>license.skuId = Some ''A''\<rparr>]\<rparr>"
  let ?carol = "\<lparr>displayName = Some ''Carol'',
      userPrincipalName = Some ''carol@contoso.com'', assignedLicenses = None\<rparr>"
  have h: "assignedLicenses ?carol = None" by simp
  have e: "analyze_licenses ?skus ([?alice] @ []) =
     Inr [\<lparr>license_name = ''Microsoft 365 E5'', sku_code = ''SPE_E5'', total_licenses = 10,
           assigned = 1, available = 9, utilization_pct = 10, users = [''Alice'']\<rparr>]"
    by (simp add: analyzer_eval)
  from missing_assigned_licenses_as_empty [OF h, of ?skus "[?alice]" "[]"]
  have "analyze_licenses ?skus ([?alice] @ ?carol # []) =
        analyze_licenses ?skus ([?alice] @ [])" by (rule conjunct2)
  from trans [OF this e] h show ?thesis by simp
qed

text \<open>
  The claim's last part as the specification words it fails where a namesake holds the
  SKU: the first Alice has no \<^verbatim>\<open>assignedLicenses\<close> key, yet her name is in the row.
\<close>

theorem missing_assigned_licenses_name_counterexample:
  "assignedLicenses \<lparr>displayName = Some ''Alice'',
      userPrincipalName = Some ''alice@contoso.com'', assignedLicenses = None\<rparr> = None \<and>
   analyze_licenses
     [\<lparr>sku.skuId = Some ''A'', skuPartNumber = Some ''SPE_E5'',
       prepaidUnits = Some \<lparr>enabled = Some 10\<rparr>, consumedUnits = Some 1\<rparr>]
     [\<lparr>displayName = Some ''Alice'', userPrincipalName = Some ''alice@contoso.com'',
       assignedLicenses = None\<rparr>,
      \<lparr>displayName = Some ''Alice'', userPrincipalName = Some ''alice2@contoso.com'',
       assignedLicenses = Some [\<lparr>license.skuId = Some ''A''\<rparr>]\<rparr>]
   = Inr [\<lparr>license_name = ''Microsoft 365 E5'', sku_code = ''SPE_E5'', total_licenses = 10,
           assigned = 1, available = 9, utilization_pct = 10, users = [''Alice'']\<rparr>] \<and>
   ''Alice'' \<in> set [''Alice'']"
  by (simp add: analyzer_eval)

text \<open>
  Claim C10, as the code has it. In the row of a SKU a display name is listed once for
  each user who bears it and holds the SKU, however many times the SKU id is repeated in
  such a user's collection, and not at all otherwise. A name borne by one user is
  therefore listed at most once; a name shared by several holders is listed once for each
  of them.
\<close>

theorem name_listed_once_per_holder:
  assumes "analyze_licenses skus us = Inr rows" "i < length skus"
    "sku.skuId (skus ! i) = Some sid"
  shows "count_list (users (rows ! i)) n =
         length (filter (\<lambda>u. displayName u = Some n \<and> holds_license u sid) us)"
proof -
  have "count_list (users (rows ! i)) n = count_list (map Some (users (rows ! i))) (Some n)"
    by (simp add: count_list_map_Some)
  also have "\<dots> =
      count_list (map displayName (filter (\<lambda>u. holds_license u sid) us)) (Some n)"
    using row_users [OF analyze_licenses_nth(2) [OF assms(1,2)] assms(3)] by simp
  also have "\<dots> = length (filter (\<lambda>u. displayName u = Some n \<and> holds_license u sid) us)"
    by (simp add: count_list_map_filter conj_commute)
  finally show ?thesis .
qed

text \<open>
  The theorem at a user whose collection names SKU \<open>A\<close> twice: the name is listed once.
\<close>

theorem name_listed_once_per_holder_witness:
  "analyze_licenses
     [\<lparr>sku.skuId = Some ''A'', skuPartNumber = Some ''SPE_E3'',
       prepaidUnits = Some \<lparr>enabled = Some 100\<rparr>, consumedUnits = Some 40\<rparr>]
     [\<lparr>displayName = Some ''Alice'', userPrincipalName = Some ''alice@contoso.com'',
       assignedLicenses = Some [\<lparr>license.skuId = Some ''A''\<rparr>, \<lparr>license.skuId = Some ''A''\<rparr>]\<rparr>]
   = Inr [\<lparr>license_name = ''Microsoft 365 E3'', sku_code = ''SPE_E3'', total_licenses = 100,
           assigned = 40, available = 60, utilization_pct = 40, users = [''Alice'']\<rparr>] \<and>
   count_list [''Alice''] ''Alice'' = 1"
proof -
  let ?skus = "[\<lparr>sku.skuId = Some ''A'', skuPartNumber = Some ''SPE_E3'',
       prepaidUnits = Some \<lparr>enabled = Some 100\<rparr>, consumedUnits = Some 40\<rparr>]"
  let ?us = "[\<lparr>displayName = Some ''Alice'', userPrincipalName = Some ''alice@contoso.com'',
       assignedLicenses =
         Some [\<lparr>license.skuId = Some ''A''\<rparr>, \<lparr>license.skuId = Some ''A''\<rparr>]\<rparr>]"
  let ?rows = "[\<lparr>license_name = ''Microsoft 365 E3'', sku_code = ''SPE_E3'',
       total_licenses = 100, assigned = 40, available = 60, utilization_pct = 40,
       users = [''Alice'']\<rparr>]"
  have r: "analyze_licenses ?skus ?us = Inr ?rows" by (simp add: analyzer_eval)
  have i: "0 < length ?skus" by simp
  have k: "sku.skuId (?skus ! 0) = Some ''A''" by simp
  from name_listed_once_per_holder [OF r i k, of "''Alice''"] r show ?thesis
    by (simp add: holds_license_def get_default_def)
qed

text \<open>
  The claim as the specification words it fails where two holders share a display name:
  the name is in the row twice.
\<close>

theorem name_listed_at_most_once_counterexample:
  "analyze_licenses
     [\<lparr>sku.skuId = Some ''A'', skuPartNumber = Some ''SPE_E3'',
       prepaidUnits = Some \<lparr>enabled = Some 100\<rparr>, consumedUnits = Some 40\<rparr>]
     [\<lparr>displayName = Some ''Alice'', userPrincipalName = Some ''alice@contoso.com'',
       assignedLicenses = Some [\<lparr>license.skuId = Some ''A''\<rparr>]\<rparr>,
      \<lparr>displayName = Some ''Alice'', userPrincipalName = Some ''alice2@contoso.com'',
       assignedLicenses = Some [\<lparr>license.skuId = Some ''A''\<rparr>]\<rparr>]
   = Inr [\<lparr>license_name = ''Microsoft 365 E3'', sku_code = ''SPE_E3'', total_licenses = 100,
           assigned = 40, available = 60, utilization_pct = 40,
           users = [''Alice'', ''Alice'']\<rparr>] \<and>
   \<not> count_list [''Alice'', ''Alice''] ''Alice'' \<le> 1"
  by (simp add: analyzer_eval)

section \<open>License namer: the claim\<close>

text \<open>
  Claim C8. The friendly-name mapping is a function on all strings, with no exception in
  it: the table has 17 entries with pairwise different codes, each code of the table is
  mapped to the name the table gives it, and every other string is mapped to itself.
\<close>

theorem friendly_name_total:
  "length license_names = 17 \<and> distinct (map fst license_names) \<and>
   (\<forall>(code, name) \<in> set license_names. get_friendly_license_name code = name) \<and>
   (s \<notin> set (map fst license_names) \<longrightarrow> get_friendly_license_name s = s)"
proof (intro conjI impI)
  show "length license_names = 17" by (simp add: license_names_def)
  show "distinct (map fst license_names)" by (rule license_names_keys)
  show "\<forall>(code, name) \<in> set license_names. get_friendly_license_name code = name"
    using license_names_keys by (auto simp: get_friendly_license_name_def get_default_def)
  assume "s \<notin> set (map fst license_names)"
  then have "map_of license_names s = None" by (simp add: map_of_eq_None_iff)
  then show "get_friendly_license_name s = s"
    by (simp add: get_friendly_license_name_def get_default_def)
qed

text \<open>The theorem at a code of the table and at a code that is not in it.\<close>

theorem friendly_name_total_witness:
  "(''SPE_E3'', ''Microsoft 365 E3'') \<in> set license_names \<and>
   get_friendly_license_name ''SPE_E3'' = ''Microsoft 365 E3'' \<and>
   ''CUSTOM_SKU'' \<notin> set (map fst license_names) \<and>
   get_friendly_license_name ''CUSTOM_SKU'' = ''CUSTOM_SKU''"
proof -
  have m: "(''SPE_E3'', ''Microsoft 365 E3'') \<in> set license_names"
    by (simp add: license_names_def)
  have n: "''CUSTOM_SKU'' \<notin> set (map fst license_names)"
    by (simp add: license_names_def)
  from friendly_name_total [of "''CUSTOM_SKU''"] m n show ?thesis by auto
qed

section \<open>Report writer: the claims\<close>

text \<open>
  Claim C4. The summary's overall utilization is the sum of the rows' assigned counts
  divided by the sum of their total counts, times 100, in the program's float arithmetic:
  the quotient rounded to a double, times 100, rounded again, which is within one part in
  \<open>2 ^ 51\<close> of the exact value. When the sum of the total counts is 0 the division
  raises \<open>ZeroDivisionError\<close>: nothing guards it, and no summary is returned. When the
  sum is not 0 no division by zero is raised, and the summary is returned for every
  assigned sum a float can take the percentage of.
\<close>

theorem overall_utilization_unguarded:
  "(sum_list (map total_licenses license_data) = 0 \<longrightarrow>
      print_summary license_data = Inl ZeroDivisionError) \<and>
   (sum_list (map total_licenses license_data) \<noteq> 0 \<longrightarrow>
      print_summary license_data \<noteq> Inl ZeroDivisionError \<and>
      (\<forall>s. print_summary license_data = Inr s \<longrightarrow>
           overall_utilization s =
             round_double
               (round_double
                  (of_int (sum_list (map assigned license_data)) /
                   of_int (sum_list (map total_licenses license_data))) * 100) \<and>
           (\<bar>sum_list (map total_licenses license_data)\<bar> \<le> 2 ^ 1022 \<longrightarrow>
              \<bar>overall_utilization s -
                 of_int (sum_list (map assigned license_data)) /
                 of_int (sum_list (map total_licenses license_data)) * 100\<bar>
              \<le> \<bar>of_int (sum_list (map assigned license_data)) /
                   of_int (sum_list (map total_licenses license_data)) * 100\<bar> / 2 ^ 51)) \<and>
      (\<bar>sum_list (map assigned license_data)\<bar> \<le> 2 ^ 1000 \<longrightarrow>
         (\<exists>s. print_summary license_data = Inr s)))"
proof -
  define ta where "ta = sum_list (map assigned license_data)"
  define tl where "tl = sum_list (map total_licenses license_data)"
  have zero: "print_summary license_data = Inl ZeroDivisionError" if "tl = 0"
    using that by (simp add: print_summary_def py_truediv_def py_bind_def Let_def tl_def)
  have nonzero: "print_summary license_data \<noteq> Inl ZeroDivisionError" if "tl \<noteq> 0"
    using that
    by (auto simp: print_summary_def py_truediv_def py_float_mul_def py_bind_def Let_def tl_def
        split: sum.splits if_splits)
  have parts: "\<exists>q. py_truediv ta tl = Inr q \<and> py_float_mul q 100 = Inr (overall_utilization s)"
    if "print_summary license_data = Inr s" for s
    using that
    by (auto simp: print_summary_def py_bind_def Let_def ta_def tl_def split: sum.splits)
  have float: "overall_utilization s = round_double (round_double (of_int ta / of_int tl) * 100)"
    if "print_summary license_data = Inr s" for s
  proof -
    from parts [OF that] obtain q where q: "py_truediv ta tl = Inr q"
      and p: "py_float_mul q 100 = Inr (overall_utilization s)" by blast
    from q have "q = round_double (of_int ta / of_int tl)"
      by (auto simp: py_truediv_def Let_def split: if_splits)
    moreover from p have "overall_utilization s = round_double (q * 100)"
      by (auto simp: py_float_mul_def Let_def split: if_splits)
    ultimately show ?thesis by simp
  qed
  have close: "\<bar>overall_utilization s - of_int ta / of_int tl * 100\<bar>
      \<le> \<bar>of_int ta / of_int tl * 100\<bar> / 2 ^ 51"
    if "print_summary license_data = Inr s" "\<bar>tl\<bar> \<le> 2 ^ 1022" for s
  proof -
    from parts [OF that(1)] obtain q where q: "py_truediv ta tl = Inr q"
      and p: "py_float_mul q 100 = Inr (overall_utilization s)" by blast
    from pct_close [OF q p that(2)] show ?thesis .
  qed
  have returns: "\<exists>s. print_summary license_data = Inr s" if "tl \<noteq> 0" "\<bar>ta\<bar> \<le> 2 ^ 1000"
  proof -
    from pct_returns [OF that] obtain q p where "py_truediv ta tl = Inr q"
      "py_float_mul q 100 = Inr p" by blast
    then show ?thesis
      by (simp add: print_summary_def py_bind_def Let_def ta_def tl_def)
  qed
  from zero nonzero float close returns show ?thesis
    unfolding ta_def tl_def by blast
qed

text \<open>
  The theorem at the two rows 40 of 100 and 50 of 50, overall 60 per cent, and at a
  single row with no licence purchased, where the division raises.
\<close>

theorem overall_utilization_unguarded_witness:
  "sum_list (map total_licenses
     [\<lparr>license_name = ''Microsoft 365 E3'', sku_code = ''SPE_E3'', total_licenses = 100,
       assigned = 40, available = 60, utilization_pct = 40, users = []\<rparr>,
      \<lparr>license_name = ''Visio Plan 2'', sku_code = ''VISIOCLIENT'', total_licenses = 50,
       assigned = 50, available = 0, utilization_pct = 100, users = []\<rparr>]) \<noteq> 0 \<and>
   print_summary
     [\<lparr>license_name = ''Microsoft 365 E3'', sku_code = ''SPE_E3'', total_licenses = 100,
       assigned = 40, available = 60, utilization_pct = 40, users = []\<rparr>,
      \<lparr>license_name = ''Visio Plan 2'', sku_code = ''VISIOCLIENT'', total_licenses = 50,
       assigned = 50, available = 0, utilization_pct = 100, users = []\<rparr>]
   = Inr \<lparr>total_purchased = 150, total_assigned = 90, total_available = 60,
          overall_utilization = 60,
          low_utilization =
            [\<lparr>license_name = ''Microsoft 365 E3'', sku_code = ''SPE_E3'',
              total_licenses = 100, assigned = 40, available = 60, utilization_pct = 40,
              users = []\<rparr>]\<rparr> \<and>
   round_double (round_double (rat_of_int 90 / rat_of_int 150) * 100) = 60 \<and>
   sum_list (map total_licenses
     [\<lparr>license_name = ''Power Automate Free'', sku_code = ''FLOW_FREE'', total_licenses = 0,
       assigned = 0, available = 0, utilization_pct = 0, users = []\<rparr>]) = 0 \<and>
   print_summary
     [\<lparr>license_name = ''Power Automate Free'', sku_code = ''FLOW_FREE'', total_licenses = 0,
       assigned = 0, available = 0, utilization_pct = 0, users = []\<rparr>] = Inl ZeroDivisionError"
proof -
  let ?rows = "[\<lparr>license_name = ''Microsoft 365 E3'', sku_code = ''SPE_E3'',
       total_licenses = 100, assigned = 40, available = 60, utilization_pct = 40,
       users = []\<rparr>,
      \<lparr>license_name = ''Visio Plan 2'', sku_code = ''VISIOCLIENT'', total_licenses = 50,
       assigned = 50, available = 0, utilization_pct = 100, users = []\<rparr>]"
  let ?s = "\<lparr>total_purchased = 150, total_assigned = 90, total_available = 60,
          overall_utilization = 60,
          low_utilization =
            [\<lparr>license_name = ''Microsoft 365 E3'', sku_code = ''SPE_E3'',
              total_licenses = 100, assigned = 40, available = 60, utilization_pct = 40,
              users = []\<rparr>]\<rparr>"
  let ?zero = "[\<lparr>license_name = ''Power Automate Free'', sku_code = ''FLOW_FREE'',
       total_licenses = 0, assigned = 0, available = 0, utilization_pct = 0, users = []\<rparr>]"
  have t: "sum_list (map total_licenses ?rows) \<noteq> 0" by simp
  have r: "print_summary ?rows = Inr ?s"
    by (simp add: print_summary_def py_bind_def low_util_def py_sorted_reverse_def
        float_values)
  from overall_utilization_unguarded [of ?rows, THEN conjunct2, rule_format, OF t,
      THEN conjunct2, THEN conjunct1, rule_format, OF r, THEN conjunct1]
  have "overall_utilization ?s =
      round_double
        (round_double
           (of_int (sum_list (map assigned ?rows)) /
            of_int (sum_list (map total_licenses ?rows))) * 100)" .
  then have v: "round_double (round_double (rat_of_int 90 / rat_of_int 150) * 100) = 60"
    by simp
  have z: "sum_list (map total_licenses ?zero) = 0" by simp
  from overall_utilization_unguarded [of ?zero, THEN conjunct1, rule_format, OF z]
  have e: "print_summary ?zero = Inl ZeroDivisionError" .
  from t r v z e show ?thesis by (intro conjI)
qed

text \<open>
  Claim C5. The colouring loop gives every data row of the summary sheet one fill, at
  sheet row \<open>i + 2\<close> for the report row at index \<open>i\<close>: red when the row's utilization
  is below 50, yellow when it is at least 50 and below 80, green when it is at least 80.
  So 50 is yellow, 80 is green and 49.9 is red; the three fills are different.
\<close>

theorem utilization_fill_bands:
  "length (color_code_utilization license_data) = length license_data \<and>
   (\<forall>i < length license_data.
      fst (color_code_utilization license_data ! i) = i + 2 \<and>
      (utilization_pct (license_data ! i) < 50 \<longrightarrow>
         snd (color_code_utilization license_data ! i) = red_fill) \<and>
      (50 \<le> utilization_pct (license_data ! i) \<and> utilization_pct (license_data ! i) < 80 \<longrightarrow>
         snd (color_code_utilization license_data ! i) = yellow_fill) \<and>
      (80 \<le> utilization_pct (license_data ! i) \<longrightarrow>
         snd (color_code_utilization license_data ! i) = green_fill)) \<and>
   utilization_fill 50 = yellow_fill \<and> utilization_fill 80 = green_fill \<and>
   utilization_fill (499 / 10) = red_fill \<and>
   red_fill \<noteq> yellow_fill \<and> yellow_fill \<noteq> green_fill \<and> red_fill \<noteq> green_fill"
proof (intro conjI allI impI)
  show "length (color_code_utilization license_data) = length license_data"
    by (rule color_code_length)
  show "utilization_fill 50 = yellow_fill" "utilization_fill 80 = green_fill"
    "utilization_fill (499 / 10) = red_fill"
    by (simp_all add: utilization_fill_def)
  show "red_fill \<noteq> yellow_fill" "yellow_fill \<noteq> green_fill" "red_fill \<noteq> green_fill"
    by (simp_all add: red_fill_def yellow_fill_def green_fill_def)
next
  fix i assume i: "i < length license_data"
  note n = color_code_nth [OF i]
  show "fst (color_code_utilization license_data ! i) = i + 2" by (simp add: n)
  { assume "utilization_pct (license_data ! i) < 50"
    then show "snd (color_code_utilization license_data ! i) = red_fill"
      by (simp add: n utilization_fill_def) }
  { assume "50 \<le> utilization_pct (license_data ! i) \<and> utilization_pct (license_data ! i) < 80"
    then show "snd (color_code_utilization license_data ! i) = yellow_fill"
      by (simp add: n utilization_fill_def) }
  { assume "80 \<le> utilization_pct (license_data ! i)"
    then show "snd (color_code_utilization license_data ! i) = green_fill"
      by (simp add: n utilization_fill_def) }
qed

text \<open>
  The theorem at three rows of utilization 49.9, 50 and 80: red, yellow, green, at sheet
  rows 2, 3 and 4.
\<close>

theorem utilization_fill_bands_witness:
  "(let license_data =
      [\<lparr>license_name = ''Power BI Pro'', sku_code = ''POWER_BI_PRO'', total_licenses = 1000,
        assigned = 499, available = 501, utilization_pct = 499 / 10, users = []\<rparr>,
       \<lparr>license_name = ''Visio Plan 2'', sku_code = ''VISIOCLIENT'', total_licenses = 2,
        assigned = 1, available = 1, utilization_pct = 50, users = []\<rparr>,
       \<lparr>license_name = ''Project Plan 3'', sku_code = ''PROJECTPROFESSIONAL'',
        total_licenses = 5, assigned = 4, available = 1, utilization_pct = 80, users = []\<rparr>]
    in length license_data = 3 \<and>
       utilization_pct (license_data ! 0) < 50 \<and>
       50 \<le> utilization_pct (license_data ! 1) \<and> utilization_pct (license_data ! 1) < 80 \<and>
       80 \<le> utilization_pct (license_data ! 2) \<and>
       color_code_utilization license_data ! 0 = (2, red_fill) \<and>
       color_code_utilization license_data ! 1 = (3, yellow_fill) \<and>
       color_code_utilization license_data ! 2 = (4, green_fill))"
proof -
  let ?rows =
     "[\<lparr>license_name = ''Power BI Pro'', sku_code = ''POWER_BI_PRO'', total_licenses = 1000,
        assigned = 499, available = 501, utilization_pct = 499 / 10, users = []\<rparr>,
       \<lparr>license_name = ''Visio Plan 2'', sku_code = ''VISIOCLIENT'', total_licenses = 2,
        assigned = 1, available = 1, utilization_pct = 50, users = []\<rparr>,
       \<lparr>license_name = ''Project Plan 3'', sku_code = ''PROJECTPROFESSIONAL'',
        total_licenses = 5, assigned = 4, available = 1, utilization_pct = 80, users = []\<rparr>]"
  have l: "length ?rows = 3" by simp
  have u: "utilization_pct (?rows ! 0) < 50" "50 \<le> utilization_pct (?rows ! 1)"
    "utilization_pct (?rows ! 1) < 80" "80 \<le> utilization_pct (?rows ! 2)"
    by simp_all
  from utilization_fill_bands [of ?rows]
  have b: "\<forall>i < length ?rows.
      fst (color_code_utilization ?rows ! i) = i + 2 \<and>
      (utilization_pct (?rows ! i) < 50 \<longrightarrow>
         snd (color_code_utilization ?rows ! i) = red_fill) \<and>
      (50 \<le> utilization_pct (?rows ! i) \<and> utilization_pct (?rows ! i) < 80 \<longrightarrow>
         snd (color_code_utilization ?rows ! i) = yellow_fill) \<and>
      (80 \<le> utilization_pct (?rows ! i) \<longrightarrow>
         snd (color_code_utilization ?rows ! i) = green_fill)"
    by (elim conjE)
  have i: "0 < length ?rows" "1 < length ?rows" "2 < length ?rows" by simp_all
  from b [rule_format, OF i(1)] u(1)
  have c0: "color_code_utilization ?rows ! 0 = (2, red_fill)"
    by (simp add: prod_eq_iff)
  from b [rule_format, OF i(2)] u(2,3)
  have c1: "color_code_utilization ?rows ! 1 = (3, yellow_fill)"
    by (simp add: prod_eq_iff)
  from b [rule_format, OF i(3)] u(4)
  have c2: "color_code_utilization ?rows ! 2 = (4, green_fill)"
    by (simp add: prod_eq_iff)
  from l u c0 c1 c2 show ?thesis unfolding Let_def by (intro conjI)
qed

text \<open>
  Claim C6. When the summary is printed, its low-utilization list holds exactly the
  report rows whose utilization is below 70 and whose total count is above 0, each as
  often as it occurs among the rows, so a row with total 0 is left out whatever its
  utilization; and the list is in descending order of the available count.
\<close>

theorem low_utilization_list:
  assumes "print_summary license_data = Inr s"
  shows "mset (low_utilization s) =
           filter_mset (\<lambda>lic. utilization_pct lic < 70 \<and> total_licenses lic > 0)
             (mset license_data) \<and>
         sorted_wrt (\<lambda>a b. available a \<ge> available b) (low_utilization s)"
proof -
  from assms have "low_utilization s = py_sorted_reverse available (low_util license_data)"
    by (auto simp: print_summary_def py_bind_def Let_def split: sum.splits)
  then show ?thesis
    by (simp add: py_sorted_reverse_mset py_sorted_reverse_desc low_util_def)
qed

text \<open>
  The theorem at four rows: 40 of 100, 0 of 0, 10 of 100 and 50 of 50. The list is
  the third row, with 90 unused, then the first, with 60; the row with nothing
  purchased is not in it.
\<close>

theorem low_utilization_list_witness:
  "print_summary
     [\<lparr>license_name = ''Microsoft 365 E3'', sku_code = ''SPE_E3'', total_licenses = 100,
       assigned = 40, available = 60, utilization_pct = 40, users = []\<rparr>,
      \<lparr>license_name = ''Power Automate Free'', sku_code = ''FLOW_FREE'', total_licenses = 0,
       assigned = 0, available = 0, utilization_pct = 0, users = []\<rparr>,
      \<lparr>license_name = ''Microsoft 365 E5'', sku_code = ''SPE_E5'', total_licenses = 100,
       assigned = 10, available = 90, utilization_pct = 10, users = []\<rparr>,
      \<lparr>license_name = ''Visio Plan 2'', sku_code = ''VISIOCLIENT'', total_licenses = 50,
       assigned = 50, available = 0, utilization_pct = 100, users = []\<rparr>]
   = Inr \<lparr>total_purchased = 250, total_assigned = 100, total_available = 150,
          overall_utilization = 40,
          low_utilization =
            [\<lparr>license_name = ''Microsoft 365 E5'', sku_code = ''SPE_E5'',
              total_licenses = 100, assigned = 10, available = 90, utilization_pct = 10,
              users = []\<rparr>,
             \<lparr>license_name = ''Microsoft 365 E3'', sku_code = ''SPE_E3'',
              total_licenses = 100, assigned = 40, available = 60, utilization_pct = 40,
              users = []\<rparr>]\<rparr> \<and>
   sorted_wrt (\<lambda>a b. available a \<ge> available b)
     [\<lparr>license_name = ''Microsoft 365 E5'', sku_code = ''SPE_E5'',
       total_licenses = 100, assigned = 10, available = 90, utilization_pct = 10,
       users = []\<rparr>,
      \<lparr>license_name = ''Microsoft 365 E3'', sku_code = ''SPE_E3'',
       total_licenses = 100, assigned = 40, available = 60, utilization_pct = (40::rat),
       users = []\<rparr>]"
proof -
  let ?rows = "[\<lparr>license_name = ''Microsoft 365 E3'', sku_code = ''SPE_E3'',
       total_licenses = 100, assigned = 40, available = 60, utilization_pct = 40,
       users = []\<rparr>,
      \<lparr>license_name = ''Power Automate Free'', sku_code = ''FLOW_FREE'', total_licenses = 0,
       assigned = 0, available = 0, utilization_pct = 0, users = []\<rparr>,
      \<lparr>license_name = ''Microsoft 365 E5'', sku_code = ''SPE_E5'', total_licenses = 100,
       assigned = 10, available = 90, utilization_pct = 10, users = []\<rparr>,
      \<lparr>license_name = ''Visio Plan 2'', sku_code = ''VISIOCLIENT'', total_licenses = 50,
       assigned = 50, available = 0, utilization_pct = 100, users = []\<rparr>]"
  let ?low = "[\<lparr>license_name = ''Microsoft 365 E5'', sku_code = ''SPE_E5'',
       total_licenses = 100, assigned = 10, available = 90, utilization_pct = 10,
       users = []\<rparr>,
      \<lparr>license_name = ''Microsoft 365 E3'', sku_code = ''SPE_E3'',
       total_licenses = 100, assigned = 40, available = 60, utilization_pct = 40,
       users = []\<rparr>]"
  let ?s = "\<lparr>total_purchased = 250, total_assigned = 100, total_available = 150,
          overall_utilization = 40, low_utilization = ?low\<rparr>"
  have r: "print_summary ?rows = Inr ?s"
    by (simp add: print_summary_def py_bind_def low_util_def py_sorted_reverse_def
        float_values)
  from low_utilization_list [OF r]
  have "sorted_wrt (\<lambda>a b. available a \<ge> available b) (low_utilization ?s)"
    by (rule conjunct2)
  then have "sorted_wrt (\<lambda>a b. available a \<ge> available b) ?low" by simp
  with r show ?thesis by (intro conjI)
qed

end
